theory Spec2Isabelle
  imports Main
begin

section \<open>Python strings\<close>

text \<open>
  A Python \<^verbatim>\<open>str\<close> is a sequence of Unicode code points, so it is modelled as a list of
  natural numbers, one per code point. \<open>py\<close> reads an ASCII literal as such a list and
  \<open>U\<close> a single character.
\<close>

type_synonym pystr = "nat list"

abbreviation U :: "char \<Rightarrow> nat" where
  "U c \<equiv> of_char c"

abbreviation py :: "string \<Rightarrow> pystr" where
  "py s \<equiv> map of_char s"

abbreviation newline :: nat where
  "newline \<equiv> 10"

abbreviation backtick :: nat where
  "backtick \<equiv> 96"

abbreviation quote :: nat where
  "quote \<equiv> 34"

abbreviation backslash :: nat where
  "backslash \<equiv> 92"

text \<open>
  \<^verbatim>\<open>str.isspace\<close> on one code point: the characters \<^verbatim>\<open>str.strip()\<close> removes when it is
  called without an argument.
\<close>

definition isspace :: "nat \<Rightarrow> bool" where
  "isspace c \<longleftrightarrow>
     (0x09 \<le> c \<and> c \<le> 0x0D) \<or> (0x1C \<le> c \<and> c \<le> 0x20) \<or> c = 0x85 \<or> c = 0xA0 \<or>
     c = 0x1680 \<or> (0x2000 \<le> c \<and> c \<le> 0x200A) \<or> c = 0x2028 \<or> c = 0x2029 \<or>
     c = 0x202F \<or> c = 0x205F \<or> c = 0x3000"

text \<open>\<^verbatim>\<open>s.strip()\<close> and \<^verbatim>\<open>s.strip(chars)\<close>: drop the matching characters at both ends.\<close>

definition strip_with :: "(nat \<Rightarrow> bool) \<Rightarrow> pystr \<Rightarrow> pystr" where
  "strip_with p s = rev (dropWhile p (rev (dropWhile p s)))"

definition strip :: "pystr \<Rightarrow> pystr" where
  "strip s = strip_with isspace s"

definition strip_backticks :: "pystr \<Rightarrow> pystr" where
  "strip_backticks s = strip_with (\<lambda>c. c = backtick) s"

definition startswith :: "pystr \<Rightarrow> pystr \<Rightarrow> bool" where
  "startswith s p \<longleftrightarrow> take (length p) s = p"

text \<open>\<^verbatim>\<open>s.split("\n", 1)[1]\<close>, for an \<open>s\<close> that contains a newline.\<close>

definition after_first_newline :: "pystr \<Rightarrow> pystr" where
  "after_first_newline s = tl (dropWhile (\<lambda>c. c \<noteq> newline) s)"

text \<open>\<^verbatim>\<open>sep.join(xs)\<close>.\<close>

fun join :: "pystr \<Rightarrow> pystr list \<Rightarrow> pystr" where
  "join sep [] = []"
| "join sep [x] = x"
| "join sep (x # y # ys) = x @ sep @ join sep (y # ys)"

section \<open>JSON values and the decoder\<close>

text \<open>
  The values \<^verbatim>\<open>json.loads\<close> builds. A dict is an association list in insertion order
  with distinct keys; \<^verbatim>\<open>None\<close> is \<open>JNull\<close>. A float is kept as the literal it was read
  from (\<^verbatim>\<open>NaN\<close>, \<^verbatim>\<open>Infinity\<close> and \<^verbatim>\<open>-Infinity\<close> included): its conversion to a
  machine float is not modelled.
\<close>

datatype json =
    JNull
  | JBool bool
  | JInt int
  | JFloat pystr
  | JString pystr
  | JArray "json list"
  | JObject "(pystr \<times> json) list"

text \<open>\<^verbatim>\<open>d[k] = v\<close> on a dict: an existing key keeps its place and takes the new value.\<close>

fun dict_set :: "pystr \<Rightarrow> json \<Rightarrow> (pystr \<times> json) list \<Rightarrow> (pystr \<times> json) list" where
  "dict_set k v [] = [(k, v)]"
| "dict_set k v ((k', v') # kvs) =
     (if k' = k then (k', v) # kvs else (k', v') # dict_set k v kvs)"

datatype token = LBrace | RBrace | LBracket | RBracket | Colon | Comma | Scalar json

definition json_ws :: "nat \<Rightarrow> bool" where
  "json_ws c \<longleftrightarrow> c = U CHR '' '' \<or> c = 0x09 \<or> c = 0x0A \<or> c = 0x0D"

definition isdigit :: "nat \<Rightarrow> bool" where
  "isdigit c \<longleftrightarrow> U CHR ''0'' \<le> c \<and> c \<le> U CHR ''9''"

definition hexval :: "nat \<Rightarrow> nat option" where
  "hexval c =
     (if U CHR ''0'' \<le> c \<and> c \<le> U CHR ''9'' then Some (c - U CHR ''0'')
      else if U CHR ''a'' \<le> c \<and> c \<le> U CHR ''f'' then Some (c - U CHR ''a'' + 10)
      else if U CHR ''A'' \<le> c \<and> c \<le> U CHR ''F'' then Some (c - U CHR ''A'' + 10)
      else None)"

text \<open>The four hexadecimal digits of a \<^verbatim>\<open>\uXXXX\<close> escape.\<close>

fun hex4 :: "pystr \<Rightarrow> nat option" where
  "hex4 (a # b # c # d # rest) =
     (case (hexval a, hexval b, hexval c, hexval d) of
        (Some w, Some x, Some y, Some z) \<Rightarrow> Some (((w * 16 + x) * 16 + y) * 16 + z)
      | _ \<Rightarrow> None)"
| "hex4 _ = None"

text \<open>
  What follows \<^verbatim>\<open>\u\<close> in a string: the code point and the number of characters read.
  A high surrogate followed by an escaped low surrogate is joined with it.
\<close>

definition escape_u :: "pystr \<Rightarrow> (nat \<times> nat) option" where
  "escape_u es =
     (case hex4 es of
        None \<Rightarrow> None
      | Some u \<Rightarrow>
          if 0xD800 \<le> u \<and> u \<le> 0xDBFF \<and> startswith (drop 4 es) [backslash, U CHR ''u''] then
            (case hex4 (drop 6 es) of
               None \<Rightarrow> None
             | Some u2 \<Rightarrow>
                 if 0xDC00 \<le> u2 \<and> u2 \<le> 0xDFFF
                 then Some (0x10000 + (u - 0xD800) * 1024 + (u2 - 0xDC00), 10)
                 else Some (u, 4))
          else Some (u, 4))"

definition unescape :: "nat \<Rightarrow> nat option" where
  "unescape e =
     (if e = quote \<or> e = backslash \<or> e = U CHR ''/'' then Some e
      else if e = U CHR ''b'' then Some 0x08
      else if e = U CHR ''f'' then Some 0x0C
      else if e = U CHR ''n'' then Some 0x0A
      else if e = U CHR ''r'' then Some 0x0D
      else if e = U CHR ''t'' then Some 0x09
      else None)"

abbreviation emit :: "'a \<Rightarrow> ('a list \<times> 'b) option \<Rightarrow> ('a list \<times> 'b) option" where
  "emit c r \<equiv> map_option (apfst ((#) c)) r"

text \<open>
  The body of a string after its opening quote, up to the closing one (strict mode: a
  control character ends the decoding with an error). Returns the decoded string and
  the text after the closing quote.
\<close>

fun scanstring :: "pystr \<Rightarrow> (pystr \<times> pystr) option" where
  "scanstring [] = None"
| "scanstring (c # cs) =
     (if c = quote then Some ([], cs)
      else if c = backslash then
        (case cs of
           [] \<Rightarrow> None
         | e # es \<Rightarrow>
             if e = U CHR ''u'' then
               (case escape_u es of
                  None \<Rightarrow> None
                | Some (u, n) \<Rightarrow> emit u (scanstring (drop n es)))
             else
               (case unescape e of
                  None \<Rightarrow> None
                | Some ch \<Rightarrow> emit ch (scanstring es)))
      else if c < 0x20 then None
      else emit c (scanstring cs))"

text \<open>
  A number, as the decoder's scanner matches it: an optional sign, \<^verbatim>\<open>0\<close> or a
  digit sequence without leading zero, an optional fraction and an optional exponent
  (each taken only when complete).
\<close>

definition int_part :: "pystr \<Rightarrow> (pystr \<times> pystr) option" where
  "int_part s =
     (case s of
        [] \<Rightarrow> None
      | c # cs \<Rightarrow>
          if U CHR ''1'' \<le> c \<and> c \<le> U CHR ''9''
          then Some (c # takeWhile isdigit cs, dropWhile isdigit cs)
          else if c = U CHR ''0'' then Some ([c], cs)
          else None)"

definition frac_part :: "pystr \<Rightarrow> pystr \<times> pystr" where
  "frac_part s =
     (case s of
        d # x # r \<Rightarrow>
          if d = U CHR ''.'' \<and> isdigit x
          then (d # x # takeWhile isdigit r, dropWhile isdigit r)
          else ([], s)
      | _ \<Rightarrow> ([], s))"

definition exp_part :: "pystr \<Rightarrow> pystr \<times> pystr" where
  "exp_part s =
     (case s of
        [] \<Rightarrow> ([], s)
      | e # r \<Rightarrow>
          if e = U CHR ''e'' \<or> e = U CHR ''E'' then
            (let (sg, r1) =
                   (case r of
                      [] \<Rightarrow> ([], r)
                    | x # y \<Rightarrow> if x = U CHR ''+'' \<or> x = U CHR ''-'' then ([x], y) else ([], r))
             in if takeWhile isdigit r1 = [] then ([], s)
                else (e # sg @ takeWhile isdigit r1, dropWhile isdigit r1))
          else ([], s))"

definition digits_value :: "pystr \<Rightarrow> nat" where
  "digits_value ds = foldl (\<lambda>a d. a * 10 + (d - U CHR ''0'')) 0 ds"

definition match_number :: "pystr \<Rightarrow> (json \<times> pystr) option" where
  "match_number s =
     (let (sg, s1) =
            (case s of
               [] \<Rightarrow> ([], s)
             | c # cs \<Rightarrow> if c = U CHR ''-'' then ([c], cs) else ([], s))
      in case int_part s1 of
           None \<Rightarrow> None
         | Some (ds, r1) \<Rightarrow>
             (let (fr, r2) = frac_part r1; (ex, r3) = exp_part r2
              in Some (if fr = [] \<and> ex = []
                       then JInt (if sg = [] then int (digits_value ds) else - int (digits_value ds))
                       else JFloat (sg @ ds @ fr @ ex), r3)))"

lemma scanstring_length: "scanstring cs = Some (s, rest) \<Longrightarrow> length rest < length cs"
proof (induction cs arbitrary: s rest rule: scanstring.induct)
  case 1
  then show ?case by simp
next
  case (2 c cs)
  show ?case
  proof (cases "c = quote")
    case True
    with "2.prems" show ?thesis by simp
  next
    case nq: False
    show ?thesis
    proof (cases "c = backslash")
      case True
      with nq "2.prems" "2.IH"(1,2) show ?thesis
        by (fastforce split: list.splits if_splits option.splits)
    next
      case False
      with nq "2.prems" "2.IH"(3) show ?thesis
        by (fastforce split: if_splits)
    qed
  qed
qed

lemma int_part_length: "int_part s = Some (ds, r) \<Longrightarrow> length r < length s"
  by (auto simp: int_part_def less_Suc_eq_le length_dropWhile_le split: list.splits if_splits)

lemma frac_part_length: "frac_part s = (fr, r) \<Longrightarrow> length r \<le> length s"
  by (auto simp: frac_part_def le_SucI length_dropWhile_le split: list.splits if_splits)

lemma exp_part_length: "exp_part s = (ex, r) \<Longrightarrow> length r \<le> length s"
  by (auto simp: exp_part_def Let_def le_SucI length_dropWhile_le
      split: list.splits if_splits prod.splits)

lemma match_number_length: "match_number s = Some (v, rest) \<Longrightarrow> length rest < length s"
proof -
  assume a: "match_number s = Some (v, rest)"
  obtain sg s1 where s1: "(case s of [] \<Rightarrow> ([], s)
        | c # cs \<Rightarrow> if c = U CHR ''-'' then ([c], cs) else ([], s)) = (sg, s1)"
    by (cases "(case s of [] \<Rightarrow> ([]::pystr, s)
        | c # cs \<Rightarrow> if c = U CHR ''-'' then ([c], cs) else ([], s))") auto
  then have l1: "length s1 \<le> length s"
    by (auto split: list.splits if_splits)
  from a s1 obtain ds r1 where ip: "int_part s1 = Some (ds, r1)"
    by (auto simp: match_number_def split: option.splits)
  obtain fr r2 where fp: "frac_part r1 = (fr, r2)" by (cases "frac_part r1") auto
  obtain ex r3 where ep: "exp_part r2 = (ex, r3)" by (cases "exp_part r2") auto
  from a s1 ip fp ep have "rest = r3"
    by (auto simp: match_number_def)
  with int_part_length[OF ip] frac_part_length[OF fp] exp_part_length[OF ep] l1
  show ?thesis by simp
qed

text \<open>
  The lexical layer of the decoder. One token is recognised from its first character,
  in the order the scanner tries them (string, object, array, \<^verbatim>\<open>null\<close>, \<^verbatim>\<open>true\<close>,
  \<^verbatim>\<open>false\<close>, number, \<^verbatim>\<open>NaN\<close>, \<^verbatim>\<open>Infinity\<close>, \<^verbatim>\<open>-Infinity\<close>); the delimiters
  \<^verbatim>\<open>]\<close>, \<^verbatim>\<open>}\<close>, \<^verbatim>\<open>:\<close> and \<^verbatim>\<open>,\<close> are tokens of their own.
\<close>

definition scan_literal :: "pystr \<Rightarrow> (token \<times> pystr) option" where
  "scan_literal s =
     (if startswith s (py ''null'') then Some (Scalar JNull, drop 4 s)
      else if startswith s (py ''true'') then Some (Scalar (JBool True), drop 4 s)
      else if startswith s (py ''false'') then Some (Scalar (JBool False), drop 5 s)
      else
        (case match_number s of
           Some (v, rest) \<Rightarrow> Some (Scalar v, rest)
         | None \<Rightarrow>
             if startswith s (py ''NaN'') then Some (Scalar (JFloat (py ''NaN'')), drop 3 s)
             else if startswith s (py ''Infinity'')
             then Some (Scalar (JFloat (py ''Infinity'')), drop 8 s)
             else if startswith s (py ''-Infinity'')
             then Some (Scalar (JFloat (py ''-Infinity'')), drop 9 s)
             else None))"

definition next_token :: "pystr \<Rightarrow> (token \<times> pystr) option" where
  "next_token s =
     (case s of
        [] \<Rightarrow> None
      | c # cs \<Rightarrow>
          if c = quote then
            (case scanstring cs of
               None \<Rightarrow> None
             | Some (str, rest) \<Rightarrow> Some (Scalar (JString str), rest))
          else if c = U CHR ''{'' then Some (LBrace, cs)
          else if c = U CHR ''['' then Some (LBracket, cs)
          else if c = U CHR ''}'' then Some (RBrace, cs)
          else if c = U CHR '']'' then Some (RBracket, cs)
          else if c = U CHR '':'' then Some (Colon, cs)
          else if c = U CHR '','' then Some (Comma, cs)
          else scan_literal s)"

lemma scan_literal_length:
  "s \<noteq> [] \<Longrightarrow> scan_literal s = Some (t, rest) \<Longrightarrow> length rest < length s"
  by (auto simp: scan_literal_def split: if_splits option.splits dest: match_number_length)

lemma next_token_length: "next_token s = Some (t, rest) \<Longrightarrow> length rest < length s"
proof (cases s)
  case Nil
  then show "next_token s = Some (t, rest) \<Longrightarrow> ?thesis" by (simp add: next_token_def)
next
  case (Cons c cs)
  assume a: "next_token s = Some (t, rest)"
  show ?thesis
  proof (cases "c = quote")
    case True
    with a Cons obtain str where "scanstring cs = Some (str, rest)"
      by (auto simp: next_token_def split: option.splits)
    from scanstring_length[OF this] Cons show ?thesis by simp
  next
    case False
    show ?thesis
    proof (cases "scan_literal s = Some (t, rest)")
      case True
      with Cons scan_literal_length[of s t rest] show ?thesis by simp
    next
      case nl: False
      with a Cons False have "rest = cs"
        by (simp add: next_token_def split: if_splits)
      with Cons show ?thesis by simp
    qed
  qed
qed

text \<open>Whitespace (space, tab, line feed, carriage return) between tokens is skipped.\<close>

function lex :: "pystr \<Rightarrow> token list option" where
  "lex [] = Some []"
| "lex (c # cs) =
     (if json_ws c then lex cs
      else
        (case next_token (c # cs) of
           None \<Rightarrow> None
         | Some (t, rest) \<Rightarrow> map_option ((#) t) (lex rest)))"
  by pat_completeness auto
termination
proof (relation "measure length")
  fix c cs x2 x y
  assume "next_token (c # cs) = Some x2" and "(x, y) = x2"
  then show "(y, c # cs) \<in> measure length"
    using next_token_length[of "c # cs" x y] by simp
qed auto

text \<open>
  The grammar over tokens. After a comma the next element is read from the remaining
  tokens; the test that they are fewer than before always succeeds
  (\<open>parse_value_consumes\<close> below) and only makes the recursion well-founded.
\<close>

fun parse_value :: "token list \<Rightarrow> (json \<times> token list) option"
  and parse_elements :: "json list \<Rightarrow> token list \<Rightarrow> (json \<times> token list) option"
  and parse_members :: "(pystr \<times> json) list \<Rightarrow> token list \<Rightarrow> (json \<times> token list) option"
  where
  "parse_value [] = None"
| "parse_value (Scalar v # ts) = Some (v, ts)"
| "parse_value (LBracket # ts) =
     (case ts of
        RBracket # r \<Rightarrow> Some (JArray [], r)
      | _ \<Rightarrow> parse_elements [] ts)"
| "parse_value (LBrace # ts) =
     (case ts of
        RBrace # r \<Rightarrow> Some (JObject [], r)
      | _ \<Rightarrow> parse_members [] ts)"
| "parse_value (RBrace # ts) = None"
| "parse_value (RBracket # ts) = None"
| "parse_value (Colon # ts) = None"
| "parse_value (Comma # ts) = None"
| "parse_elements acc ts =
     (case parse_value ts of
        None \<Rightarrow> None
      | Some (v, rest) \<Rightarrow>
          (case rest of
             RBracket # r \<Rightarrow> Some (JArray (acc @ [v]), r)
           | Comma # r \<Rightarrow>
               if length r < length ts then parse_elements (acc @ [v]) r else None
           | _ \<Rightarrow> None))"
| "parse_members acc ts =
     (case ts of
        Scalar (JString k) # Colon # ts' \<Rightarrow>
          (case parse_value ts' of
             None \<Rightarrow> None
           | Some (v, rest) \<Rightarrow>
               (case rest of
                  RBrace # r \<Rightarrow> Some (JObject (dict_set k v acc), r)
                | Comma # r \<Rightarrow>
                    if length r < length ts then parse_members (dict_set k v acc) r else None
                | _ \<Rightarrow> None))
      | _ \<Rightarrow> None)"

declare parse_elements.simps [simp del] parse_members.simps [simp del]

text \<open>
  \<^verbatim>\<open>json.loads\<close> on a \<^verbatim>\<open>str\<close>: one value between optional whitespace, and nothing
  after it. Every failure of the decoder is a \<^verbatim>\<open>JSONDecodeError\<close>. The interpreter's
  resource limits (recursion depth, length of an integer literal) are not modelled.
\<close>

datatype error = ValueError pystr | JSONDecodeError | AttributeError

definition json_loads :: "pystr \<Rightarrow> error + json" where
  "json_loads s =
     (case lex s of
        None \<Rightarrow> Inl JSONDecodeError
      | Some ts \<Rightarrow>
          (case parse_value ts of
             Some (v, []) \<Rightarrow> Inr v
           | _ \<Rightarrow> Inl JSONDecodeError))"

text \<open>
  \<^verbatim>\<open>parsed.get(k)\<close>: the value of the key or \<^verbatim>\<open>None\<close> on a dict; any other decoded
  value has no \<^verbatim>\<open>get\<close> attribute.
\<close>

fun py_get :: "json \<Rightarrow> pystr \<Rightarrow> error + json" where
  "py_get (JObject kvs) k = Inr (case map_of kvs k of None \<Rightarrow> JNull | Some v \<Rightarrow> v)"
| "py_get _ k = Inl AttributeError"

section \<open>Session state and its environment\<close>

text \<open>
  What the module finds when it is loaded: the text of the prompt contract file, and
  for each optional import whether it succeeded (the name is not \<^verbatim>\<open>None\<close>).
\<close>

record env =
  PROMPT_CONTRACT :: pystr
  PdfReader :: bool
  genai :: bool
  generativeai :: bool

text \<open>
  The three functions \<^verbatim>\<open>init_gemini_client\<close> can return. \<^verbatim>\<open>call_with_genai\<close> reads the
  global \<^verbatim>\<open>api_key\<close> when it is called; \<^verbatim>\<open>call_with_generativeai\<close> uses the key the
  SDK was configured with when the function was built.
\<close>

datatype callable = call_with_genai | call_with_generativeai pystr | call_stub

text \<open>
  The module's globals. An entry of \<open>conversation_logs\<close> is the dict that the source
  passes to \<^verbatim>\<open>json.dumps\<close>; the encoder is not modelled.
\<close>

record state =
  pdf_text_content :: pystr
  api_key :: pystr
  gemini_call :: "callable option"
  conversation_logs :: "json list"
  answer_json_log :: "pystr list"
  answer_structured_log :: "json list"

definition initial_state :: state where
  "initial_state =
     \<lparr>pdf_text_content = [], api_key = [], gemini_call = None,
      conversation_logs = [], answer_json_log = [], answer_structured_log = []\<rparr>"

text \<open>
  An uploaded file, as \<^verbatim>\<open>PdfReader\<close> sees it: the result of \<^verbatim>\<open>extract_text()\<close> for each
  page (\<open>None\<close> when a page has none), or a file on which the reader or a page raises
  an exception, given by its \<^verbatim>\<open>str()\<close>.
\<close>

datatype pdf = Pages "pystr option list" | Unreadable pystr

definition parse_pdf :: "env \<Rightarrow> pdf option \<Rightarrow> pystr" where
  "parse_pdf e file_obj =
     (case file_obj of
        None \<Rightarrow> []
      | Some f \<Rightarrow>
          if \<not> PdfReader e
          then py ''PyPDF2 is not installed. Please install it via pip to enable PDF parsing.''
          else
            (case f of
               Pages pages \<Rightarrow>
                 foldl (\<lambda>text page. text @ (case page of None \<Rightarrow> [] | Some t \<Rightarrow> t) @ [newline])
                   [] pages
             | Unreadable exc \<Rightarrow> py ''Error parsing PDF: '' @ exc))"

text \<open>
  \<^verbatim>\<open>init_gemini_client\<close> stores the key in the global before it checks it. Setting up the
  older SDK (\<^verbatim>\<open>configure\<close>, \<^verbatim>\<open>GenerativeModel\<close>) only records the key and the model
  name.
\<close>

definition init_gemini_client :: "env \<Rightarrow> pystr \<Rightarrow> state \<Rightarrow> (error + callable) \<times> state" where
  "init_gemini_client e provided_key st =
     (let st1 = st\<lparr>api_key := provided_key\<rparr>
      in if provided_key = []
         then (Inl (ValueError (py ''API key is required to initialise the Gemini client.'')), st1)
         else if genai e then (Inr call_with_genai, st1)
         else if generativeai e then (Inr (call_with_generativeai (api_key st1)), st1)
         else (Inr call_stub, st1))"

definition initialised_event :: json where
  "initialised_event =
     JObject [(py ''event'', JString (py ''initialised'')),
              (py ''message'', JString (py ''Loaded PDF and API key''))]"

definition upload_and_prepare ::
  "env \<Rightarrow> pdf option \<Rightarrow> pystr \<Rightarrow> state \<Rightarrow> (error + pystr) \<times> state" where
  "upload_and_prepare e pdf_file user_api_key st =
     (if pdf_file = None then (Inr (py ''Please upload a PDF file.''), st)
      else if user_api_key = [] then (Inr (py ''Please provide your Gemini API key.''), st)
      else
        (let st1 = st\<lparr>pdf_text_content := parse_pdf e pdf_file\<rparr>
         in if pdf_text_content st1 = []
            then (Inr (py ''Failed to parse PDF or PDF contained no extractable text.''), st1)
            else
              (case init_gemini_client e user_api_key st1 of
                 (Inl err, st2) \<Rightarrow> (Inl err, st2)
               | (Inr f, st2) \<Rightarrow>
                   (Inr (py ''PDF loaded and API key set. You can now ask questions about the document.''),
                    st2\<lparr>gemini_call := Some f,
                        conversation_logs := conversation_logs st2 @ [initialised_event]\<rparr>))))"

section \<open>One turn of the chat\<close>

text \<open>
  What a call of the bound function yields: a value, which is a \<^verbatim>\<open>str\<close> or something
  else (given by its \<^verbatim>\<open>str()\<close>), or an exception (given by its \<^verbatim>\<open>str()\<close>). The
  provider is a parameter: from the key and the prompt to the outcome of the request.
\<close>

datatype pyval = Str pystr | NonStr pystr

datatype reply = Returns pyval | Raises pystr

type_synonym provider = "pystr \<Rightarrow> pystr \<Rightarrow> reply"

definition stub_message :: pystr where
  "stub_message =
     py ''Neither google'' @ [0x2011] @ py ''genai nor google'' @ [0x2011] @
     py ''generativeai is installed. Please install one of these packages to enable Gemini API calls.''"

fun invoke :: "provider \<Rightarrow> state \<Rightarrow> callable \<Rightarrow> pystr \<Rightarrow> reply" where
  "invoke generate st call_with_genai messages = generate (api_key st) messages"
| "invoke generate st (call_with_generativeai k) messages = generate k messages"
| "invoke generate st call_stub messages = Returns (Str stub_message)"

definition messages_for_api :: "env \<Rightarrow> state \<Rightarrow> pystr \<Rightarrow> pystr" where
  "messages_for_api e st user_message =
     join [newline]
       [PROMPT_CONTRACT e,
        py ''Document contents:'' @ [newline] @ pdf_text_content st @ [newline],
        user_message]"

text \<open>
  The \<^verbatim>\<open>try\<close> around the model call: the output and the prompts passed to the bound
  function (none when no function is bound).
\<close>

definition model_output :: "provider \<Rightarrow> state \<Rightarrow> pystr \<Rightarrow> pyval \<times> pystr list" where
  "model_output generate st messages =
     (case gemini_call st of
        None \<Rightarrow> (Str (py ''Gemini client is not initialised.''), [])
      | Some f \<Rightarrow>
          (case invoke generate st f messages of
             Returns v \<Rightarrow> (v, [messages])
           | Raises exc \<Rightarrow> (Str (py ''Error calling Gemini API: '' @ exc), [messages])))"

text \<open>Trimming and removal of a code fence, as \<^verbatim>\<open>chat\<close> does it on a \<^verbatim>\<open>str\<close> output.\<close>

definition strip_fences :: "pystr \<Rightarrow> pystr" where
  "strip_fences output =
     (let stripped = strip output
      in if startswith stripped (py ''```'')
         then
           (let stripped = strip_backticks stripped
            in if newline \<in> set stripped then after_first_newline stripped else stripped)
         else stripped)"

text \<open>
  The \<^verbatim>\<open>try\<close> around the decoding: \<^verbatim>\<open>final_answer\<close> (\<open>JNull\<close> is \<^verbatim>\<open>None\<close>) and the
  entry appended to \<^verbatim>\<open>answer_structured_log\<close>.
\<close>

definition decode_reply :: "pystr \<Rightarrow> json \<times> json" where
  "decode_reply stripped =
     (case json_loads stripped of
        Inl _ \<Rightarrow> (JNull, JObject [(py ''raw'', JString stripped)])
      | Inr parsed \<Rightarrow>
          (case py_get parsed (py ''answer'') of
             Inl _ \<Rightarrow> (JNull, JObject [(py ''raw'', JString stripped)])
           | Inr answer \<Rightarrow> (answer, parsed)))"

type_synonym history = "(pystr \<times> json) list"

text \<open>What \<^verbatim>\<open>chat\<close> returns: a tuple of two or of three values.\<close>

datatype chat_return = Return2 history pystr | Return3 history pystr pystr

record turn =
  returned :: chat_return
  state_after :: state
  model_calls :: "pystr list"

definition chat :: "env \<Rightarrow> provider \<Rightarrow> pystr \<Rightarrow> history \<Rightarrow> state \<Rightarrow> turn" where
  "chat e generate user_message history st =
     (if pdf_text_content st = [] then
        \<lparr>returned =
           Return2
             (history @
              [(user_message,
                JString (py ''Please upload a PDF and set your API key before asking questions.''))])
             [],
         state_after = st, model_calls = []\<rparr>
      else if api_key st = [] then
        \<lparr>returned =
           Return2
             (history @
              [(user_message,
                JString (py ''API key is missing. Please upload a PDF and provide your key first.''))])
             [],
         state_after = st, model_calls = []\<rparr>
      else
        (let (output, calls) = model_output generate st (messages_for_api e st user_message);
             (final_answer, st1) =
               (case output of
                  Str s \<Rightarrow>
                    (let stripped = strip_fences s; (answer, entry) = decode_reply stripped
                     in (answer,
                         st\<lparr>answer_json_log := answer_json_log st @ [stripped],
                            answer_structured_log := answer_structured_log st @ [entry]\<rparr>))
                | NonStr r \<Rightarrow> (JNull, st));
             final_answer =
               (if final_answer = JNull
                then (case output of Str s \<Rightarrow> JString s | NonStr r \<Rightarrow> JString r)
                else final_answer);
             st2 = st1\<lparr>conversation_logs := conversation_logs st1 @
                         [JObject [(py ''user'', JString user_message), (py ''answer'', final_answer)]]\<rparr>
         in \<lparr>returned =
               Return3 (history @ [(user_message, final_answer)]) []
                 (join [newline] (answer_json_log st2)),
             state_after = st2, model_calls = calls\<rparr>))"

definition get_structured_logs :: "state \<Rightarrow> json list" where
  "get_structured_logs st = answer_structured_log st"

definition get_raw_logs :: "state \<Rightarrow> pystr" where
  "get_raw_logs st = (if answer_json_log st \<noteq> [] then join [newline] (answer_json_log st) else [])"

section \<open>Sequences of user actions\<close>

datatype event = Upload "pdf option" pystr | Ask provider pystr history

fun step :: "env \<Rightarrow> state \<Rightarrow> event \<Rightarrow> state" where
  "step e st (Upload pdf_file user_api_key) = snd (upload_and_prepare e pdf_file user_api_key st)"
| "step e st (Ask generate user_message history) =
     state_after (chat e generate user_message history st)"

definition run :: "env \<Rightarrow> event list \<Rightarrow> state \<Rightarrow> state" where
  "run e evs st = foldl (step e) st evs"

section \<open>Observations on a turn and the running example\<close>

text \<open>The transcript a call of \<^verbatim>\<open>chat\<close> hands back, and the answer of its last entry.\<close>

fun transcript :: "chat_return \<Rightarrow> history" where
  "transcript (Return2 h c) = h"
| "transcript (Return3 h c r) = h"

definition displayed_answer :: "turn \<Rightarrow> json" where
  "displayed_answer t = snd (last (transcript (returned t)))"

text \<open>
  The two logs are aligned when each entry of \<^verbatim>\<open>answer_structured_log\<close> is the entry the
  decoding step produces for the raw reply at the same index.
\<close>

definition aligned :: "state \<Rightarrow> bool" where
  "aligned st \<longleftrightarrow>
     answer_structured_log st = map (\<lambda>raw. snd (decode_reply raw)) (answer_json_log st)"

text \<open>A reply \<open>t\<close> inside a code fence whose opening line carries the tag \<open>tag\<close>.\<close>

definition fenced :: "pystr \<Rightarrow> pystr \<Rightarrow> pystr" where
  "fenced tag t = py ''```'' @ tag @ [newline] @ t @ [newline] @ py ''```''"

text \<open>
  The running example: a session after a successful upload of a document with the text
  \<^verbatim>\<open>Revenue was $5M.\<close>, two replies of the model, and a short sequence of user actions.
\<close>

definition example_env :: env where
  "example_env = \<lparr>PROMPT_CONTRACT = py ''Answer in JSON.'', PdfReader = True, genai = True, generativeai = False\<rparr>"

definition revenue_state :: state where
  "revenue_state = initial_state\<lparr>pdf_text_content := py ''Revenue was $5M.'', api_key := py ''key'', gemini_call := Some call_with_genai\<rparr>"

definition revenue_json :: pystr where
  \<open>revenue_json = py ''{"answer": "$5M", "evidence": "page 1"}''\<close>

definition evidence_json :: pystr where
  \<open>evidence_json = py ''{"evidence": "page 1"}''\<close>

definition example_events :: "event list" where
  "example_events =
     [Ask (\<lambda>k p. Returns (Str revenue_json)) (py ''Hi'') [],
      Upload (Some (Pages [Some (py ''Revenue was $5M.''), None])) (py ''key''),
      Ask (\<lambda>k p. Raises (py ''timeout'')) (py ''What was revenue?'') []]"

lemmas eval_state = revenue_state_def initial_state_def example_env_def

section \<open>The decoder and surrounding whitespace\<close>

text \<open>
  A character that \<^verbatim>\<open>str.strip()\<close> removes never takes part in a token: appended to a
  text, it leaves every scanner's result as it was and stays at the end of the rest.
\<close>

lemma isspace_not_digit: "isspace c \<Longrightarrow> \<not> isdigit c"
  by (auto simp: isspace_def isdigit_def)

lemma isspace_hexval: "isspace c \<Longrightarrow> hexval c = None"
  by (auto simp: isspace_def hexval_def)

lemma isspace_unescape: "isspace c \<Longrightarrow> unescape c = None"
  by (auto simp: isspace_def unescape_def)

lemma isspace_not_printable:
  "isspace c \<Longrightarrow> c \<notin> {33..126}"
  by (auto simp: isspace_def)

lemma startswith_length: "startswith s p \<Longrightarrow> length p \<le> length s"
proof -
  assume "startswith s p"
  then have "length (take (length p) s) = length p" by (simp add: startswith_def)
  then show ?thesis by simp
qed

lemma startswith_snoc: "c \<notin> set p \<Longrightarrow> startswith (s @ [c]) p = startswith s p"
proof (cases "length p \<le> length s")
  case True
  then show ?thesis by (simp add: startswith_def)
next
  case False
  assume c: "c \<notin> set p"
  from False have 1: "take (length p) (s @ [c]) = s @ [c]" by simp
  from False have "length (take (length p) s) \<noteq> length p" by simp
  then have 2: "take (length p) s \<noteq> p" by auto
  from c have 3: "s @ [c] \<noteq> p" by auto
  from 1 2 3 show ?thesis by (simp add: startswith_def)
qed

lemma takeWhile_snoc: "\<not> P c \<Longrightarrow> takeWhile P (xs @ [c]) = takeWhile P xs"
  by (induction xs) auto

lemma dropWhile_snoc: "\<not> P c \<Longrightarrow> dropWhile P (xs @ [c]) = dropWhile P xs @ [c]"
  by (induction xs) auto

lemma hex4_snoc: "isspace c \<Longrightarrow> hex4 (es @ [c]) = hex4 es"
  by (induction es rule: hex4.induct) (simp_all add: isspace_hexval split: option.splits)

lemma hex4_length: "hex4 es = Some u \<Longrightarrow> 4 \<le> length es"
  by (induction es rule: hex4.induct) simp_all

lemma escape_u_length: "escape_u es = Some (u, n) \<Longrightarrow> n \<le> length es"
proof -
  assume a: "escape_u es = Some (u, n)"
  then obtain u1 where h: "hex4 es = Some u1"
    by (auto simp: escape_u_def split: option.splits)
  then have l4: "4 \<le> length es" by (rule hex4_length)
  show ?thesis
  proof (cases "n = 4")
    case True
    with l4 show ?thesis by simp
  next
    case False
    with a h obtain u2 where "hex4 (drop 6 es) = Some u2" and "n = 10"
      by (auto simp: escape_u_def split: option.splits if_splits)
    with hex4_length[of "drop 6 es" u2] show ?thesis by simp
  qed
qed

lemma escape_u_snoc:
  assumes "isspace c"
  shows "escape_u (es @ [c]) = escape_u es"
proof (cases "hex4 es")
  case None
  with assms show ?thesis by (simp add: escape_u_def hex4_snoc)
next
  case (Some u)
  then have l4: "4 \<le> length es" by (rule hex4_length)
  from assms have "c \<notin> set [backslash, U CHR ''u'']" by (auto simp: isspace_def)
  then have sw: "startswith (drop 4 es @ [c]) [backslash, U CHR ''u''] =
      startswith (drop 4 es) [backslash, U CHR ''u'']"
    by (rule startswith_snoc)
  show ?thesis
  proof (cases "startswith (drop 4 es) [backslash, U CHR ''u'']")
    case True
    from startswith_length[OF True] have "6 \<le> length es" by simp
    with assms Some l4 sw True show ?thesis
      by (simp add: escape_u_def hex4_snoc)
  next
    case False
    with assms Some l4 sw show ?thesis
      by (simp add: escape_u_def hex4_snoc)
  qed
qed

lemma scanstring_snoc:
  assumes "isspace c"
  shows "scanstring (s @ [c]) = map_option (apsnd (\<lambda>r. r @ [c])) (scanstring s)"
proof (induction s rule: scanstring.induct)
  case 1
  from assms have "c \<noteq> quote" "c \<noteq> backslash" by (auto simp: isspace_def)
  then show ?case by simp
next
  case (2 d cs)
  show ?case
  proof (cases "d = quote")
    case True
    then show ?thesis by simp
  next
    case nq: False
    show ?thesis
    proof (cases "d = backslash")
      case False
      with nq "2.IH"(3) show ?thesis
        by (simp add: option.map_comp comp_def apfst_def apsnd_def map_prod_def split_def)
    next
      case bs: True
      show ?thesis
      proof (cases cs)
        case Nil
        with bs assms show ?thesis
          by (auto simp: isspace_unescape isspace_def)
      next
        case (Cons e es)
        show ?thesis
        proof (cases "e = U CHR ''u''")
          case True
          show ?thesis
          proof (cases "escape_u es")
            case None
            with bs Cons True assms show ?thesis by (simp add: escape_u_snoc)
          next
            case (Some un)
            obtain u n where un: "un = (u, n)" by (cases un)
            from Some un have "n \<le> length es" using escape_u_length by simp
            with bs nq Cons True Some un assms "2.IH"(1)[OF nq bs Cons True Some un[symmetric]]
            show ?thesis
              by (simp add: escape_u_snoc option.map_comp comp_def apfst_def apsnd_def
                  map_prod_def split_def)
          qed
        next
          case False
          show ?thesis
          proof (cases "unescape e")
            case None
            with bs Cons False show ?thesis by simp
          next
            case (Some ch)
            with bs nq Cons False "2.IH"(2)[OF nq bs Cons False Some]
            show ?thesis
              by (simp add: option.map_comp comp_def apfst_def apsnd_def map_prod_def split_def)
          qed
        qed
      qed
    qed
  qed
qed

lemma int_part_snoc:
  "isspace c \<Longrightarrow> int_part (s @ [c]) = map_option (apsnd (\<lambda>r. r @ [c])) (int_part s)"
  by (cases s)
    (auto simp: int_part_def takeWhile_snoc dropWhile_snoc isspace_not_digit isspace_def)

lemma frac_part_snoc:
  assumes "isspace c"
  shows "frac_part (s @ [c]) = apsnd (\<lambda>r. r @ [c]) (frac_part s)"
proof (cases s)
  case Nil
  then show ?thesis by (simp add: frac_part_def)
next
  case (Cons d r)
  show ?thesis
  proof (cases r)
    case Nil
    with Cons assms show ?thesis by (simp add: frac_part_def isspace_not_digit)
  next
    case (Cons x r')
    with \<open>s = d # r\<close> assms show ?thesis
      by (simp add: frac_part_def takeWhile_snoc dropWhile_snoc isspace_not_digit)
  qed
qed

lemma exp_part_snoc:
  assumes "isspace c"
  shows "exp_part (s @ [c]) = apsnd (\<lambda>r. r @ [c]) (exp_part s)"
proof (cases s)
  case Nil
  with assms show ?thesis by (auto simp: exp_part_def isspace_def)
next
  case (Cons e r)
  from assms have nd: "\<not> isdigit c" by (rule isspace_not_digit)
  from assms have ns: "c \<noteq> U CHR ''+''" "c \<noteq> U CHR ''-''" by (auto simp: isspace_def)
  show ?thesis
  proof (cases r)
    case Nil
    with Cons nd ns show ?thesis by (simp add: exp_part_def)
  next
    case (Cons x y)
    with \<open>s = e # r\<close> nd show ?thesis
      by (simp add: exp_part_def takeWhile_snoc dropWhile_snoc)
  qed
qed

lemma match_number_snoc:
  assumes "isspace c"
  shows "match_number (s @ [c]) = map_option (apsnd (\<lambda>r. r @ [c])) (match_number s)"
proof -
  from assms have nm: "c \<noteq> U CHR ''-''" by (auto simp: isspace_def)
  have ip0: "int_part [c] = None"
    using int_part_snoc[OF assms, of "[]"] by (simp add: int_part_def)
  show ?thesis
  proof (cases s)
    case Nil
    with nm ip0 show ?thesis by (simp add: match_number_def int_part_def)
  next
    case (Cons d r)
    show ?thesis
    proof (cases "d = U CHR ''-''")
      case True
      with Cons show ?thesis
        by (simp add: match_number_def int_part_snoc[OF assms] frac_part_snoc[OF assms]
            exp_part_snoc[OF assms] split_def Let_def split: option.splits)
    next
      case False
      with Cons have "s @ [c] = d # (r @ [c])" by simp
      with Cons False int_part_snoc[OF assms, of "d # r"] show ?thesis
        by (simp add: match_number_def frac_part_snoc[OF assms]
            exp_part_snoc[OF assms] split_def Let_def split: option.splits)
    qed
  qed
qed

lemma scan_literal_snoc:
  assumes "isspace c"
  shows "scan_literal (s @ [c]) = map_option (apsnd (\<lambda>r. r @ [c])) (scan_literal s)"
proof -
  from assms have np: "c \<notin> {33..126}" by (rule isspace_not_printable)
  have sw1: "startswith (s @ [c]) (py ''null'') = startswith s (py ''null'')"
    by (rule startswith_snoc) (use np in auto)
  have sw2: "startswith (s @ [c]) (py ''true'') = startswith s (py ''true'')"
    by (rule startswith_snoc) (use np in auto)
  have sw3: "startswith (s @ [c]) (py ''false'') = startswith s (py ''false'')"
    by (rule startswith_snoc) (use np in auto)
  have sw4: "startswith (s @ [c]) (py ''NaN'') = startswith s (py ''NaN'')"
    by (rule startswith_snoc) (use np in auto)
  have sw5: "startswith (s @ [c]) (py ''Infinity'') = startswith s (py ''Infinity'')"
    by (rule startswith_snoc) (use np in auto)
  have sw6: "startswith (s @ [c]) (py ''-Infinity'') = startswith s (py ''-Infinity'')"
    by (rule startswith_snoc) (use np in auto)
  note sw = sw1[simplified] sw2[simplified] sw3[simplified] sw4[simplified]
    sw5[simplified] sw6[simplified]
  note mn = match_number_snoc[OF assms, of s]
  show ?thesis
  proof (cases "startswith s (py ''null'')")
    case True
    from startswith_length[OF True] have "4 \<le> length s" by simp
    with True show ?thesis by (simp add: scan_literal_def sw)
  next
    case n1: False
    show ?thesis
    proof (cases "startswith s (py ''true'')")
      case True
      from startswith_length[OF True] have "4 \<le> length s" by simp
      with n1 True show ?thesis by (simp add: scan_literal_def sw)
    next
      case n2: False
      show ?thesis
      proof (cases "startswith s (py ''false'')")
        case True
        from startswith_length[OF True] have "5 \<le> length s" by simp
        with n1 n2 True show ?thesis by (simp add: scan_literal_def sw)
      next
        case n3: False
        show ?thesis
        proof (cases "match_number s")
          case (Some vr)
          with n1 n2 n3 mn show ?thesis
            by (simp add: scan_literal_def sw split_def)
        next
          case None
          show ?thesis
          proof (cases "startswith s (py ''NaN'')")
            case True
            from startswith_length[OF True] have "3 \<le> length s" by simp
            with n1 n2 n3 None mn True show ?thesis by (simp add: scan_literal_def sw)
          next
            case n4: False
            show ?thesis
            proof (cases "startswith s (py ''Infinity'')")
              case True
              from startswith_length[OF True] have "8 \<le> length s" by simp
              with n1 n2 n3 n4 None mn True show ?thesis by (simp add: scan_literal_def sw)
            next
              case n5: False
              show ?thesis
              proof (cases "startswith s (py ''-Infinity'')")
                case True
                from startswith_length[OF True] have "9 \<le> length s" by simp
                with n1 n2 n3 n4 n5 None mn True show ?thesis
                  by (simp add: scan_literal_def sw)
              next
                case False
                with n1 n2 n3 n4 n5 None mn show ?thesis by (simp add: scan_literal_def sw)
              qed
            qed
          qed
        qed
      qed
    qed
  qed
qed

lemma next_token_snoc:
  assumes "isspace c" and "s \<noteq> []"
  shows "next_token (s @ [c]) = map_option (apsnd (\<lambda>r. r @ [c])) (next_token s)"
proof -
  from assms(2) obtain d cs where s: "s = d # cs" by (cases s) auto
  show ?thesis
  proof (cases "d = quote")
    case True
    with s show ?thesis
      by (simp add: next_token_def scanstring_snoc[OF assms(1)] split: option.splits)
  next
    case False
    show ?thesis
    proof (cases "d = U CHR ''{'' \<or> d = U CHR ''['' \<or> d = U CHR ''}'' \<or> d = U CHR '']''
        \<or> d = U CHR '':'' \<or> d = U CHR '',''")
      case True
      with False s show ?thesis by (auto simp: next_token_def)
    next
      case np: False
      with False s have 1: "next_token s = scan_literal s" by (simp add: next_token_def)
      from np False s have 2: "next_token (s @ [c]) = scan_literal (s @ [c])"
        by (simp add: next_token_def)
      from 1 2 scan_literal_snoc[OF assms(1)] show ?thesis by simp
    qed
  qed
qed

lemma isspace_next_token: "isspace c \<Longrightarrow> \<not> json_ws c \<Longrightarrow> next_token (c # cs) = None"
proof -
  assume a: "isspace c" and "\<not> json_ws c"
  from a have np: "c \<notin> {33..126}" by (rule isspace_not_printable)
  have sw: "\<not> startswith (c # cs) (py lit)" if "lit \<noteq> []" "set (py lit) \<subseteq> {33..126}" for lit
  proof
    assume "startswith (c # cs) (py lit)"
    then have "take (length lit) (c # cs) = py lit" by (simp add: startswith_def)
    with that(1) have "c \<in> set (py lit)" by (cases lit) auto
    with that(2) np show False by auto
  qed
  have mn: "match_number (c # cs) = None"
    using np by (auto simp: match_number_def int_part_def)
  have "scan_literal (c # cs) = None"
    using sw[of "''null''"] sw[of "''true''"] sw[of "''false''"] sw[of "''NaN''"]
      sw[of "''Infinity''"] sw[of "''-Infinity''"] mn
    by (simp add: scan_literal_def)
  with np show ?thesis by (auto simp: next_token_def)
qed

text \<open>
  So the token sequence of a text does not change when JSON whitespace is appended, and
  a text that has a token sequence keeps it when it is trimmed.
\<close>

lemma lex_snoc:
  assumes "isspace c"
  shows "lex (s @ [c]) = (if json_ws c then lex s else None)"
proof (induction s rule: lex.induct)
  case 1
  show ?case using assms isspace_next_token[of c "[]"] by simp
next
  case (2 d cs)
  show ?case
  proof (cases "json_ws d")
    case True
    with "2.IH"(1) show ?thesis by simp
  next
    case False
    show ?thesis
    proof (cases "next_token (d # cs)")
      case None
      with False next_token_snoc[OF assms, of "d # cs"] show ?thesis by simp
    next
      case (Some tr)
      obtain t rest where tr: "tr = (t, rest)" by (cases tr)
      from Some tr next_token_snoc[OF assms, of "d # cs"]
      have "next_token (d # cs @ [c]) = Some (t, rest @ [c])" by simp
      with False Some tr "2.IH"(2)[OF False Some tr[symmetric]] show ?thesis by simp
    qed
  qed
qed

lemma lex_lstrip: "lex s = Some ts \<Longrightarrow> lex (dropWhile isspace s) = Some ts"
proof (induction s)
  case Nil
  then show ?case by simp
next
  case (Cons c s)
  show ?case
  proof (cases "isspace c")
    case True
    show ?thesis
    proof (cases "json_ws c")
      case True
      with Cons \<open>isspace c\<close> show ?thesis by simp
    next
      case False
      with Cons.prems isspace_next_token[OF True False, of s] show ?thesis by simp
    qed
  next
    case False
    with Cons.prems show ?thesis by simp
  qed
qed

lemma lex_rstrip: "lex s = Some ts \<Longrightarrow> lex (rev (dropWhile isspace (rev s))) = Some ts"
proof (induction s rule: rev_induct)
  case Nil
  then show ?case by simp
next
  case (snoc c s)
  show ?case
  proof (cases "isspace c")
    case True
    with snoc.prems lex_snoc[OF True, of s] have "lex s = Some ts"
      by (simp split: if_splits)
    with snoc.IH True show ?thesis by simp
  next
    case False
    with snoc.prems show ?thesis by simp
  qed
qed

lemma lex_strip: "lex s = Some ts \<Longrightarrow> lex (strip s) = Some ts"
  unfolding strip_def strip_with_def by (intro lex_rstrip lex_lstrip)

lemma lex_not_fenced: "lex s = Some ts \<Longrightarrow> \<not> startswith s (py ''```'')"
proof
  assume l: "lex s = Some ts" and f: "startswith s (py ''```'')"
  from f obtain cs where s: "s = backtick # cs"
    by (cases s) (auto simp: startswith_def)
  have "match_number (backtick # cs) = None" by (simp add: match_number_def int_part_def)
  then have "scan_literal (backtick # cs) = None"
    by (simp add: scan_literal_def startswith_def)
  then have "next_token (backtick # cs) = None" by (simp add: next_token_def)
  with l s show False by (simp add: json_ws_def)
qed

lemma json_loads_newline: "json_loads (t @ [newline]) = json_loads t"
proof -
  have "isspace newline" "json_ws newline" by (simp_all add: isspace_def json_ws_def)
  with lex_snoc[of newline t] show ?thesis by (simp add: json_loads_def)
qed

lemma json_loads_lex: "json_loads t = Inr v \<Longrightarrow> \<exists>ts. lex t = Some ts"
  by (auto simp: json_loads_def split: option.splits)

lemma json_loads_strip: "json_loads t = Inr v \<Longrightarrow> json_loads (strip t) = Inr v"
proof -
  assume a: "json_loads t = Inr v"
  then obtain ts where "lex t = Some ts" using json_loads_lex by blast
  with lex_strip[OF this] a show ?thesis by (simp add: json_loads_def)
qed

text \<open>
  Every successful step of the grammar consumes a token, so the length test in
  \<open>parse_elements\<close> and \<open>parse_members\<close> never fails.
\<close>

lemma parse_consumes_all:
  "(\<forall>v rest. parse_value ts = Some (v, rest) \<longrightarrow> length rest < length ts) \<and>
   (\<forall>acc v rest. parse_elements acc ts = Some (v, rest) \<longrightarrow> length rest < length ts) \<and>
   (\<forall>kvs v rest. parse_members kvs ts = Some (v, rest) \<longrightarrow> length rest < length ts)"
proof (induction ts rule: length_induct)
  case (1 ts)
  have V: "length rest < length ts" if pv: "parse_value ts = Some (v, rest)" for v rest
  proof (cases ts)
    case Nil
    with pv show ?thesis by simp
  next
    case (Cons t ts')
    show ?thesis
    proof (cases t)
      case LBracket
      show ?thesis
      proof (cases "\<exists>r. ts' = RBracket # r")
        case True
        with pv Cons LBracket show ?thesis by auto
      next
        case False
        with pv Cons LBracket have "parse_elements [] ts' = Some (v, rest)"
          by (auto split: list.splits token.splits)
        moreover from Cons have "length ts' < length ts" by simp
        ultimately have "length rest < length ts'" using 1 by blast
        with Cons show ?thesis by simp
      qed
    next
      case LBrace
      show ?thesis
      proof (cases "\<exists>r. ts' = RBrace # r")
        case True
        with pv Cons LBrace show ?thesis by auto
      next
        case False
        with pv Cons LBrace have "parse_members [] ts' = Some (v, rest)"
          by (auto split: list.splits token.splits)
        moreover from Cons have "length ts' < length ts" by simp
        ultimately have "length rest < length ts'" using 1 by blast
        with Cons show ?thesis by simp
      qed
    qed (use pv Cons in auto)
  qed
  have E: "length rest < length ts" if pe: "parse_elements acc ts = Some (v, rest)"
    for acc v rest
  proof -
    from pe obtain w r where pv: "parse_value ts = Some (w, r)"
      by (subst (asm) parse_elements.simps) (auto split: option.splits)
    from V[OF pv] have l: "length r < length ts" .
    from pe pv consider (close) "r = RBracket # rest"
      | (more) r' where "r = Comma # r'" "parse_elements (acc @ [w]) r' = Some (v, rest)"
      by (subst (asm) parse_elements.simps) (auto split: list.splits token.splits if_splits)
    then show ?thesis
    proof cases
      case close
      with l show ?thesis by simp
    next
      case more
      with l have "length r' < length ts" by simp
      with 1 more(2) have "length rest < length r'" by blast
      with more(1) l show ?thesis by simp
    qed
  qed
  have M: "length rest < length ts" if pm: "parse_members kvs ts = Some (v, rest)"
    for kvs v rest
  proof -
    from pm obtain k ts' where ts: "ts = Scalar (JString k) # Colon # ts'"
      by (subst (asm) parse_members.simps) (auto split: list.splits token.splits json.splits)
    with pm obtain w r where pv: "parse_value ts' = Some (w, r)"
      by (subst (asm) parse_members.simps) (auto split: option.splits)
    from ts have "length ts' < length ts" by simp
    with 1 pv have l: "length r < length ts'" by blast
    from pm ts pv consider (close) "r = RBrace # rest"
      | (more) r' where "r = Comma # r'" "parse_members (dict_set k w kvs) r' = Some (v, rest)"
      by (subst (asm) parse_members.simps) (auto split: list.splits token.splits if_splits)
    then show ?thesis
    proof cases
      case close
      with l ts show ?thesis by simp
    next
      case more
      with l ts have "length r' < length ts" by simp
      with 1 more(2) have "length rest < length r'" by blast
      with more(1) l ts show ?thesis by simp
    qed
  qed
  from V E M show ?case by blast
qed

lemma parse_value_consumes: "parse_value ts = Some (v, rest) \<Longrightarrow> length rest < length ts"
  using parse_consumes_all by blast

lemma parse_elements_unguarded:
  "parse_elements acc ts =
     (case parse_value ts of
        None \<Rightarrow> None
      | Some (v, rest) \<Rightarrow>
          (case rest of
             RBracket # r \<Rightarrow> Some (JArray (acc @ [v]), r)
           | Comma # r \<Rightarrow> parse_elements (acc @ [v]) r
           | _ \<Rightarrow> None))"
proof (cases "parse_value ts")
  case None
  then show ?thesis by (subst parse_elements.simps) simp
next
  case (Some vr)
  obtain v rest where vr: "vr = (v, rest)" by (cases vr)
  from Some vr parse_value_consumes have "length rest < length ts" by blast
  with Some vr show ?thesis
    by (subst parse_elements.simps) (auto split: list.splits token.splits)
qed

lemma parse_members_unguarded:
  "parse_members kvs ts =
     (case ts of
        Scalar (JString k) # Colon # ts' \<Rightarrow>
          (case parse_value ts' of
             None \<Rightarrow> None
           | Some (v, rest) \<Rightarrow>
               (case rest of
                  RBrace # r \<Rightarrow> Some (JObject (dict_set k v kvs), r)
                | Comma # r \<Rightarrow> parse_members (dict_set k v kvs) r
                | _ \<Rightarrow> None))
      | _ \<Rightarrow> None)"
proof (cases "\<exists>k ts'. ts = Scalar (JString k) # Colon # ts'")
  case False
  then show ?thesis
    by (subst parse_members.simps) (auto split: list.splits token.splits json.splits)
next
  case True
  then obtain k ts' where ts: "ts = Scalar (JString k) # Colon # ts'" by blast
  show ?thesis
  proof (cases "parse_value ts'")
    case None
    with ts show ?thesis by (subst parse_members.simps) simp
  next
    case (Some vr)
    obtain v rest where vr: "vr = (v, rest)" by (cases vr)
    from Some vr parse_value_consumes have "length rest < length ts'" by blast
    with Some vr ts show ?thesis
      by (subst parse_members.simps) (auto split: list.splits token.splits)
  qed
qed

section \<open>Trimming and fence removal\<close>

lemma strip_with_id: "s \<noteq> [] \<Longrightarrow> \<not> p (hd s) \<Longrightarrow> \<not> p (last s) \<Longrightarrow> strip_with p s = s"
proof -
  assume a: "s \<noteq> []" "\<not> p (hd s)" "\<not> p (last s)"
  then have 1: "dropWhile p s = s" by (cases s) auto
  from a have "rev s \<noteq> []" "\<not> p (hd (rev s))" by (simp_all add: hd_rev)
  then have 2: "dropWhile p (rev s) = rev s" by (cases "rev s") auto
  from 1 2 show ?thesis by (simp add: strip_with_def)
qed

lemma dropWhile_until: "\<not> p x \<Longrightarrow> dropWhile p (xs @ x # ys) = dropWhile p xs @ x # ys"
  by (induction xs) auto

lemma strip_fences_plain: "json_loads t = Inr v \<Longrightarrow> strip_fences t = strip t"
proof -
  assume a: "json_loads t = Inr v"
  then obtain ts where "lex t = Some ts" using json_loads_lex by blast
  from lex_not_fenced[OF lex_strip[OF this]] show ?thesis by (simp add: strip_fences_def)
qed

lemma strip_fences_fenced:
  assumes "newline \<notin> set tag"
  shows "strip_fences (fenced tag t) = t @ [newline]"
proof -
  let ?b = "\<lambda>c. c = backtick"
  let ?s = "fenced tag t"
  have "\<not> isspace backtick" by (simp add: isspace_def)
  then have 1: "strip ?s = ?s"
    unfolding strip_def by (intro strip_with_id) (simp_all add: fenced_def)
  have 2: "startswith ?s (py ''```'')" by (simp add: startswith_def fenced_def)
  have "dropWhile ?b ?s = dropWhile ?b (tag @ newline # (t @ [newline] @ py ''```''))"
    by (simp add: fenced_def)
  also have "\<dots> = dropWhile ?b tag @ newline # (t @ [newline] @ py ''```'')"
    by (rule dropWhile_until) simp
  finally have 3: "dropWhile ?b ?s = dropWhile ?b tag @ newline # (t @ [newline] @ py ''```'')" .
  have 4: "strip_backticks ?s = dropWhile ?b tag @ newline # t @ [newline]"
    unfolding strip_backticks_def strip_with_def 3 by simp
  have "set (dropWhile ?b tag) \<subseteq> set tag" by (rule set_dropWhileD[THEN subsetI])
  with assms have 5: "\<forall>x\<in>set (dropWhile ?b tag). x \<noteq> newline" by auto
  have 6: "after_first_newline (dropWhile ?b tag @ newline # t @ [newline]) = t @ [newline]"
    unfolding after_first_newline_def using 5 by (simp add: dropWhile_append2)
  from 1 2 4 6 show ?thesis by (simp add: strip_fences_def Let_def)
qed

section \<open>Facts about one turn\<close>

lemma model_output_calls:
  "gemini_call st = Some f \<Longrightarrow> snd (model_output generate st messages) = [messages]"
  by (simp add: model_output_def split: reply.splits)

lemma model_output_returns:
  "gemini_call st = Some f \<Longrightarrow> invoke generate st f messages = Returns v \<Longrightarrow>
    fst (model_output generate st messages) = v"
  by (simp add: model_output_def)

lemma decode_reply_answer:
  "json_loads s = Inr (JObject kvs) \<Longrightarrow> map_of kvs (py ''answer'') = Some X \<Longrightarrow>
    decode_reply s = (X, JObject kvs)"
  by (simp add: decode_reply_def)

lemma chat_ready_str:
  assumes "pdf_text_content st \<noteq> []" and "api_key st \<noteq> []"
    and "fst (model_output generate st (messages_for_api e st user_message)) = Str out"
    and "decode_reply (strip_fences out) = (answer, entry)"
  shows "transcript (returned (chat e generate user_message history st)) =
      history @ [(user_message, if answer = JNull then JString out else answer)]"
    and "answer_json_log (state_after (chat e generate user_message history st)) =
      answer_json_log st @ [strip_fences out]"
    and "answer_structured_log (state_after (chat e generate user_message history st)) =
      answer_structured_log st @ [entry]"
  using assms by (auto simp: chat_def Let_def split: prod.splits)

text \<open>The replies of the running example, decoded.\<close>

lemma revenue_json_decodes:
  "json_loads (revenue_json @ [newline]) =
     Inr (JObject [(py ''answer'', JString (py ''$5M'')), (py ''evidence'', JString (py ''page 1''))])"
  unfolding json_loads_newline
  by (simp add: revenue_json_def json_loads_def json_ws_def next_token_def parse_members.simps)

lemma revenue_json_loads:
  "json_loads revenue_json =
     Inr (JObject [(py ''answer'', JString (py ''$5M'')), (py ''evidence'', JString (py ''page 1''))])"
  using revenue_json_decodes by (simp only: json_loads_newline)

lemma evidence_json_loads:
  "json_loads evidence_json = Inr (JObject [(py ''evidence'', JString (py ''page 1''))])"
  by (simp add: evidence_json_def json_loads_def json_ws_def next_token_def parse_members.simps)

lemma error_text_not_json:
  "strip_fences (py ''Error calling Gemini API: timeout'') = py ''Error calling Gemini API: timeout''"
  "json_loads (py ''Error calling Gemini API: timeout'') = Inl JSONDecodeError"
  by (simp_all add: strip_fences_def strip_def strip_with_def isspace_def startswith_def
      json_loads_def json_ws_def next_token_def scan_literal_def match_number_def int_part_def)

section \<open>Displayed answer and parsed entry of a decoded reply\<close>

text \<open>
  C1. In a turn that reaches the model (document text and key present), if the output is
  a string which, after trimming and fence removal, decodes to a JSON object whose
  \<^verbatim>\<open>answer\<close> key has a value \<open>X\<close> other than null, then the pair appended to the
  transcript carries \<open>X\<close> as its answer and the entry appended to the parsed-reply log
  is the decoded object.
\<close>

theorem chat_displays_answer:
  assumes "pdf_text_content st \<noteq> []" and "api_key st \<noteq> []"
    and "fst (model_output generate st (messages_for_api e st user_message)) = Str out"
    and "json_loads (strip_fences out) = Inr (JObject kvs)"
    and "map_of kvs (py ''answer'') = Some X" and "X \<noteq> JNull"
  shows "transcript (returned (chat e generate user_message history st)) =
      history @ [(user_message, X)]
    \<and> answer_structured_log (state_after (chat e generate user_message history st)) =
      answer_structured_log st @ [JObject kvs]"
proof -
  have "decode_reply (strip_fences out) = (X, JObject kvs)"
    using assms(4,5) by (simp add: decode_reply_def)
  from chat_ready_str(1,3)[OF assms(1,2,3) this] assms(6) show ?thesis by simp
qed

text \<open>The running example with the unfenced reply: the answer shown is \<^verbatim>\<open>$5M\<close>.\<close>

theorem chat_displays_answer_witness:
  "transcript (returned (chat example_env (\<lambda>k p. Returns (Str revenue_json))
       (py ''What was revenue?'') [] revenue_state)) =
     [(py ''What was revenue?'', JString (py ''$5M''))]
   \<and> answer_structured_log (state_after (chat example_env (\<lambda>k p. Returns (Str revenue_json))
       (py ''What was revenue?'') [] revenue_state)) =
     [JObject [(py ''answer'', JString (py ''$5M'')), (py ''evidence'', JString (py ''page 1''))]]"
proof -
  have 1: "pdf_text_content revenue_state \<noteq> []" "api_key revenue_state \<noteq> []"
    by (simp_all add: eval_state)
  have 2: "fst (model_output (\<lambda>k p. Returns (Str revenue_json)) revenue_state
      (messages_for_api example_env revenue_state (py ''What was revenue?''))) = Str revenue_json"
    by (simp add: model_output_def eval_state)
  have 3: "json_loads (strip_fences revenue_json) =
      Inr (JObject [(py ''answer'', JString (py ''$5M'')), (py ''evidence'', JString (py ''page 1''))])"
    using revenue_json_loads by (simp add: strip_fences_plain json_loads_strip)
  from chat_displays_answer[OF 1 2 3, of "JString (py ''$5M'')" "[]"] show ?thesis
    by (simp add: eval_state)
qed

section \<open>The prompt of a turn\<close>

text \<open>
  C2. When the document text and the key are non-empty and a model function is bound, one
  question leads to exactly one call of that function, and its argument is the prompt
  contract, a newline, the header \<^verbatim>\<open>Document contents:\<close> with a newline, the document
  text and a newline, another newline, and the question.
\<close>

theorem chat_sends_one_composed_prompt:
  assumes "pdf_text_content st \<noteq> []" and "api_key st \<noteq> []" and "gemini_call st = Some f"
  shows "model_calls (chat e generate user_message history st) =
    [PROMPT_CONTRACT e @ [newline] @
     (py ''Document contents:'' @ [newline] @ pdf_text_content st @ [newline]) @ [newline] @
     user_message]"
proof -
  have "snd (model_output generate st (messages_for_api e st user_message)) =
      [messages_for_api e st user_message]"
    using assms(3) by (rule model_output_calls)
  then have "model_calls (chat e generate user_message history st) = [messages_for_api e st user_message]"
    using assms(1,2) by (auto simp: chat_def Let_def split: prod.splits)
  then show ?thesis by (simp add: messages_for_api_def)
qed

text \<open>The prompt of a question in the running example.\<close>

theorem chat_sends_one_composed_prompt_witness:
  "model_calls (chat example_env (\<lambda>k p. Returns (Str revenue_json))
       (py ''What was revenue?'') [] revenue_state) =
     [py ''Answer in JSON.'' @ [newline] @ py ''Document contents:'' @ [newline] @
      py ''Revenue was $5M.'' @ [newline] @ [newline] @ py ''What was revenue?'']"
  using chat_sends_one_composed_prompt[of revenue_state call_with_genai example_env
      "\<lambda>k p. Returns (Str revenue_json)" "py ''What was revenue?''" "[]"]
  by (simp add: eval_state)

section \<open>Alignment of the two reply logs\<close>

lemma upload_logs:
  "answer_json_log (snd (upload_and_prepare e pdf_file user_api_key st)) = answer_json_log st"
  "answer_structured_log (snd (upload_and_prepare e pdf_file user_api_key st)) = answer_structured_log st"
  by (auto simp: upload_and_prepare_def init_gemini_client_def Let_def)

lemma chat_aligned:
  "aligned st \<Longrightarrow> aligned (state_after (chat e generate user_message history st))"
  by (auto simp: aligned_def chat_def Let_def split: prod.splits pyval.splits)

lemma step_aligned: "aligned st \<Longrightarrow> aligned (step e st ev)"
  by (cases ev) (simp_all add: chat_aligned, simp add: aligned_def upload_logs)

lemma run_aligned: "aligned st \<Longrightarrow> aligned (run e evs st)"
  unfolding run_def by (induction evs arbitrary: st) (simp_all add: step_aligned)

text \<open>
  C3. After any sequence of uploads and questions from the initial state, whatever the
  provider does in each turn, the raw-reply log and the parsed-reply log have the same
  length, and the parsed entry at each index is the one decoded from the raw reply at
  that index.
\<close>

theorem logs_stay_aligned:
  "length (answer_json_log (run e evs initial_state)) =
     length (answer_structured_log (run e evs initial_state))
   \<and> answer_structured_log (run e evs initial_state) =
     map (\<lambda>raw. snd (decode_reply raw)) (answer_json_log (run e evs initial_state))"
proof -
  have "aligned initial_state" by (simp add: aligned_def initial_state_def)
  then have "aligned (run e evs initial_state)" by (rule run_aligned)
  then show ?thesis by (simp add: aligned_def)
qed

text \<open>
  A question before the upload, an upload, and a question on which the provider fails:
  one raw reply and its parsed entry.
\<close>

theorem logs_stay_aligned_witness:
  "answer_json_log (run example_env example_events initial_state) =
     [py ''Error calling Gemini API: timeout'']
   \<and> answer_structured_log (run example_env example_events initial_state) =
     [JObject [(py ''raw'', JString (py ''Error calling Gemini API: timeout''))]]"
proof -
  have 1: "answer_json_log (run example_env example_events initial_state) =
      [py ''Error calling Gemini API: timeout'']"
    by (simp add: run_def example_events_def chat_def upload_and_prepare_def parse_pdf_def
        init_gemini_client_def model_output_def decode_reply_def Let_def eval_state
        error_text_not_json[simplified])
  have 2: "snd (decode_reply (py ''Error calling Gemini API: timeout'')) =
      JObject [(py ''raw'', JString (py ''Error calling Gemini API: timeout''))]"
    by (simp add: decode_reply_def error_text_not_json(2)[simplified])
  from logs_stay_aligned[of example_env example_events]
  have "answer_structured_log (run example_env example_events initial_state) =
      map (\<lambda>raw. snd (decode_reply raw)) (answer_json_log (run example_env example_events initial_state))"
    by (rule conjunct2)
  with 1 2 show ?thesis by simp
qed

section \<open>Replies that are not JSON\<close>

text \<open>
  C4. In a turn that reaches the model, if the output is a string which, after trimming
  and fence removal, is not valid JSON, then the answer appended to the transcript is
  the output itself, unchanged, and the entry appended to the parsed-reply log is the
  dict with the single key \<^verbatim>\<open>raw\<close> holding the text after fence removal.
\<close>

theorem chat_falls_back_to_raw:
  assumes "pdf_text_content st \<noteq> []" and "api_key st \<noteq> []"
    and "fst (model_output generate st (messages_for_api e st user_message)) = Str out"
    and "json_loads (strip_fences out) = Inl err"
  shows "transcript (returned (chat e generate user_message history st)) =
      history @ [(user_message, JString out)]
    \<and> answer_structured_log (state_after (chat e generate user_message history st)) =
      answer_structured_log st @ [JObject [(py ''raw'', JString (strip_fences out))]]"
proof -
  have "decode_reply (strip_fences out) = (JNull, JObject [(py ''raw'', JString (strip_fences out))])"
    using assms(4) by (simp add: decode_reply_def)
  from chat_ready_str(1,3)[OF assms(1,2,3) this] show ?thesis by simp
qed

text \<open>A provider that raises: the error text is shown and logged under \<^verbatim>\<open>raw\<close>.\<close>

theorem chat_falls_back_to_raw_witness:
  "transcript (returned (chat example_env (\<lambda>k p. Raises (py ''timeout''))
       (py ''What was revenue?'') [] revenue_state)) =
     [(py ''What was revenue?'', JString (py ''Error calling Gemini API: timeout''))]
   \<and> answer_structured_log (state_after (chat example_env (\<lambda>k p. Raises (py ''timeout''))
       (py ''What was revenue?'') [] revenue_state)) =
     [JObject [(py ''raw'', JString (py ''Error calling Gemini API: timeout''))]]"
proof -
  have 1: "pdf_text_content revenue_state \<noteq> []" "api_key revenue_state \<noteq> []"
    by (simp_all add: eval_state)
  have 2: "fst (model_output (\<lambda>k p. Raises (py ''timeout'')) revenue_state
      (messages_for_api example_env revenue_state (py ''What was revenue?''))) =
      Str (py ''Error calling Gemini API: timeout'')"
    by (simp add: model_output_def eval_state)
  have 3: "json_loads (strip_fences (py ''Error calling Gemini API: timeout'')) = Inl JSONDecodeError"
    by (simp only: error_text_not_json)
  from chat_falls_back_to_raw[OF 1 2 3, of "[]"] show ?thesis
    by (simp add: eval_state error_text_not_json(1)[simplified])
qed

section \<open>Fenced and unfenced replies\<close>

text \<open>
  C5, as the code has it. For every JSON object text \<open>t\<close> whose \<^verbatim>\<open>answer\<close> key has a
  value other than null, and every tag line without a newline, a turn whose output is
  \<open>t\<close> inside a code fence with that tag line displays the same answer as a turn whose
  output is \<open>t\<close> itself.
\<close>

theorem fenced_reply_same_answer:
  assumes "pdf_text_content st1 \<noteq> []" and "api_key st1 \<noteq> []"
    and "pdf_text_content st2 \<noteq> []" and "api_key st2 \<noteq> []"
    and "json_loads t = Inr (JObject kvs)"
    and "map_of kvs (py ''answer'') = Some X" and "X \<noteq> JNull"
    and "newline \<notin> set tag"
    and "fst (model_output g1 st1 (messages_for_api e st1 q1)) = Str (fenced tag t)"
    and "fst (model_output g2 st2 (messages_for_api e st2 q2)) = Str t"
  shows "displayed_answer (chat e g1 q1 h1 st1) = displayed_answer (chat e g2 q2 h2 st2)"
proof -
  have "json_loads (strip_fences (fenced tag t)) = Inr (JObject kvs)"
    using assms(5,8) by (simp add: strip_fences_fenced json_loads_newline)
  then have d1: "decode_reply (strip_fences (fenced tag t)) = (X, JObject kvs)"
    using assms(6) by (rule decode_reply_answer)
  have "json_loads (strip_fences t) = Inr (JObject kvs)"
    using assms(5) by (simp add: strip_fences_plain json_loads_strip)
  then have d2: "decode_reply (strip_fences t) = (X, JObject kvs)"
    using assms(6) by (rule decode_reply_answer)
  from chat_ready_str(1)[OF assms(1,2,9) d1] assms(7)
  have a1: "displayed_answer (chat e g1 q1 h1 st1) = X" by (simp add: displayed_answer_def)
  from chat_ready_str(1)[OF assms(3,4,10) d2] assms(7)
  have a2: "displayed_answer (chat e g2 q2 h2 st2) = X" by (simp add: displayed_answer_def)
  from a1 a2 show ?thesis by simp
qed

text \<open>The reply of the running example, with and without a \<^verbatim>\<open>json\<close> fence.\<close>

theorem fenced_reply_same_answer_witness:
  "displayed_answer (chat example_env (\<lambda>k p. Returns (Str (fenced (py ''json'') revenue_json)))
       (py ''What was revenue?'') [] revenue_state) =
   displayed_answer (chat example_env (\<lambda>k p. Returns (Str revenue_json))
       (py ''What was revenue?'') [] revenue_state)"
proof -
  have 1: "pdf_text_content revenue_state \<noteq> []" "api_key revenue_state \<noteq> []"
    by (simp_all add: eval_state)
  have 2: "map_of [(py ''answer'', JString (py ''$5M'')), (py ''evidence'', JString (py ''page 1''))]
      (py ''answer'') = Some (JString (py ''$5M''))" "JString (py ''$5M'') \<noteq> JNull"
    "newline \<notin> set (py ''json'')"
    by simp_all
  have 3: "fst (model_output (\<lambda>k p. Returns (Str (fenced (py ''json'') revenue_json))) revenue_state
      (messages_for_api example_env revenue_state (py ''What was revenue?''))) =
      Str (fenced (py ''json'') revenue_json)"
    by (simp add: model_output_def eval_state)
  have 4: "fst (model_output (\<lambda>k p. Returns (Str revenue_json)) revenue_state
      (messages_for_api example_env revenue_state (py ''What was revenue?''))) = Str revenue_json"
    by (simp add: model_output_def eval_state)
  show ?thesis
    by (rule fenced_reply_same_answer[OF 1 1 revenue_json_loads 2 3 4])
qed

text \<open>
  Without the restriction on the \<^verbatim>\<open>answer\<close> key the two turns differ: for a JSON object
  that has no such key, each turn displays its own raw output, fence included.
\<close>

theorem fenced_without_answer_counterexample:
  "json_loads evidence_json = Inr (JObject [(py ''evidence'', JString (py ''page 1''))])
   \<and> displayed_answer (chat example_env (\<lambda>k p. Returns (Str (fenced (py ''json'') evidence_json)))
       (py ''What was revenue?'') [] revenue_state) \<noteq>
     displayed_answer (chat example_env (\<lambda>k p. Returns (Str evidence_json))
       (py ''What was revenue?'') [] revenue_state)"
proof -
  let ?obj = "JObject [(py ''evidence'', JString (py ''page 1''))]"
  have 1: "pdf_text_content revenue_state \<noteq> []" "api_key revenue_state \<noteq> []"
    by (simp_all add: eval_state)
  have 3: "fst (model_output (\<lambda>k p. Returns (Str (fenced (py ''json'') evidence_json))) revenue_state
      (messages_for_api example_env revenue_state (py ''What was revenue?''))) =
      Str (fenced (py ''json'') evidence_json)"
    by (simp add: model_output_def eval_state)
  have 4: "fst (model_output (\<lambda>k p. Returns (Str evidence_json)) revenue_state
      (messages_for_api example_env revenue_state (py ''What was revenue?''))) = Str evidence_json"
    by (simp add: model_output_def eval_state)
  have "json_loads (strip_fences (fenced (py ''json'') evidence_json)) = Inr ?obj"
    using evidence_json_loads by (simp add: strip_fences_fenced json_loads_newline)
  then have d1: "decode_reply (strip_fences (fenced (py ''json'') evidence_json)) = (JNull, ?obj)"
    by (simp add: decode_reply_def)
  have "json_loads (strip_fences evidence_json) = Inr ?obj"
    using evidence_json_loads by (simp add: strip_fences_plain json_loads_strip)
  then have d2: "decode_reply (strip_fences evidence_json) = (JNull, ?obj)"
    by (simp add: decode_reply_def)
  have "fenced (py ''json'') evidence_json \<noteq> evidence_json"
    by (simp add: fenced_def evidence_json_def)
  with chat_ready_str(1)[OF 1 3 d1, of "[]"] chat_ready_str(1)[OF 1 4 d2, of "[]"]
    evidence_json_loads
  show ?thesis by (simp add: displayed_answer_def)
qed

section \<open>The revenue scenario\<close>

text \<open>
  C6, as the code has it. With the document text \<^verbatim>\<open>Revenue was $5M.\<close>, a non-empty key
  and a bound model function that answers the question \<^verbatim>\<open>What was revenue?\<close> with the
  fenced reply, the turn appends the pair of the question and \<^verbatim>\<open>$5M\<close> to the transcript,
  and appends to the raw-reply log the JSON text followed by the newline that stood
  before the closing fence.
\<close>

theorem revenue_scenario:
  assumes "pdf_text_content st = py ''Revenue was $5M.''" and "api_key st \<noteq> []"
    and "gemini_call st = Some f"
    and "invoke generate st f (messages_for_api e st (py ''What was revenue?'')) =
      Returns (Str (fenced (py ''json'') revenue_json))"
  shows "transcript (returned (chat e generate (py ''What was revenue?'') history st)) =
      history @ [(py ''What was revenue?'', JString (py ''$5M''))]
    \<and> answer_json_log (state_after (chat e generate (py ''What was revenue?'') history st)) =
      answer_json_log st @ [revenue_json @ [newline]]"
proof -
  have s: "strip_fences (fenced (py ''json'') revenue_json) = revenue_json @ [newline]"
    by (rule strip_fences_fenced) simp
  have d: "decode_reply (strip_fences (fenced (py ''json'') revenue_json)) =
      (JString (py ''$5M''),
       JObject [(py ''answer'', JString (py ''$5M'')), (py ''evidence'', JString (py ''page 1''))])"
    unfolding s using revenue_json_decodes by (rule decode_reply_answer) simp
  have ne: "pdf_text_content st \<noteq> []" using assms(1) by simp
  note o = model_output_returns[OF assms(3,4)]
  from chat_ready_str(1,2)[OF ne assms(2) o d] s show ?thesis by simp
qed

theorem revenue_scenario_witness:
  "transcript (returned (chat example_env (\<lambda>k p. Returns (Str (fenced (py ''json'') revenue_json)))
       (py ''What was revenue?'') [] revenue_state)) =
     [(py ''What was revenue?'', JString (py ''$5M''))]
   \<and> answer_json_log (state_after (chat example_env
       (\<lambda>k p. Returns (Str (fenced (py ''json'') revenue_json)))
       (py ''What was revenue?'') [] revenue_state)) = [revenue_json @ [newline]]"
proof -
  let ?g = "\<lambda>k p. Returns (Str (fenced (py ''json'') revenue_json))"
  have 1: "pdf_text_content revenue_state = py ''Revenue was $5M.''"
    and 2: "api_key revenue_state \<noteq> []"
    and 3: "gemini_call revenue_state = Some call_with_genai"
    and 5: "answer_json_log revenue_state = []"
    by (simp_all add: eval_state)
  have 4: "invoke ?g revenue_state call_with_genai
      (messages_for_api example_env revenue_state (py ''What was revenue?'')) =
      Returns (Str (fenced (py ''json'') revenue_json))"
    by simp
  from revenue_scenario[OF 1 2 3 4, of "[]"] 5 show ?thesis by simp
qed

text \<open>The raw-reply entry is not the JSON text alone.\<close>

theorem revenue_raw_log_counterexample:
  "answer_json_log (state_after (chat example_env
       (\<lambda>k p. Returns (Str (fenced (py ''json'') revenue_json)))
       (py ''What was revenue?'') [] revenue_state)) \<noteq>
   answer_json_log revenue_state @ [revenue_json]"
proof -
  have 1: "pdf_text_content revenue_state \<noteq> []" "api_key revenue_state \<noteq> []"
    by (simp_all add: eval_state)
  have 3: "fst (model_output (\<lambda>k p. Returns (Str (fenced (py ''json'') revenue_json))) revenue_state
      (messages_for_api example_env revenue_state (py ''What was revenue?''))) =
      Str (fenced (py ''json'') revenue_json)"
    by (simp add: model_output_def eval_state)
  obtain a en where d: "decode_reply (strip_fences (fenced (py ''json'') revenue_json)) = (a, en)"
    by (cases "decode_reply (strip_fences (fenced (py ''json'') revenue_json))")
  have s: "strip_fences (fenced (py ''json'') revenue_json) = revenue_json @ [newline]"
    by (rule strip_fences_fenced) simp
  from chat_ready_str(2)[OF 1 3 d, of "[]"] s show ?thesis by simp
qed

section \<open>Questions before an upload\<close>

text \<open>
  C7. A turn submitted while the document text is empty appends one pair to the
  transcript, whose answer is a fixed instruction to upload first; it calls no model
  function and leaves the raw-reply log and the parsed-reply log as they were.
\<close>

theorem chat_before_upload:
  assumes "pdf_text_content st = []"
  shows "transcript (returned (chat e generate user_message history st)) =
      history @ [(user_message,
        JString (py ''Please upload a PDF and set your API key before asking questions.''))]
    \<and> length (transcript (returned (chat e generate user_message history st))) = length history + 1
    \<and> model_calls (chat e generate user_message history st) = []
    \<and> answer_json_log (state_after (chat e generate user_message history st)) = answer_json_log st
    \<and> answer_structured_log (state_after (chat e generate user_message history st)) =
        answer_structured_log st"
  using assms by (simp add: chat_def)

theorem chat_before_upload_witness:
  "transcript (returned (chat example_env (\<lambda>k p. Returns (Str revenue_json))
       (py ''Hi'') [] initial_state)) =
     [(py ''Hi'', JString (py ''Please upload a PDF and set your API key before asking questions.''))]
   \<and> model_calls (chat example_env (\<lambda>k p. Returns (Str revenue_json))
       (py ''Hi'') [] initial_state) = []
   \<and> answer_json_log (state_after (chat example_env (\<lambda>k p. Returns (Str revenue_json))
       (py ''Hi'') [] initial_state)) = []
   \<and> answer_structured_log (state_after (chat example_env (\<lambda>k p. Returns (Str revenue_json))
       (py ''Hi'') [] initial_state)) = []"
  using chat_before_upload[of initial_state example_env "\<lambda>k p. Returns (Str revenue_json)"
      "py ''Hi''" "[]"]
  by (simp add: initial_state_def)

text \<open>
  C8. The docstring of \<^verbatim>\<open>chat\<close> promises three return values in every case. In the
  initial state the call returns only two: the transcript and the empty string.
\<close>

theorem chat_not_ready_returns_two_values:
  "returned (chat example_env (\<lambda>k p. Returns (Str revenue_json)) (py ''Hi'') [] initial_state) =
     Return2
       [(py ''Hi'', JString (py ''Please upload a PDF and set your API key before asking questions.''))]
       []"
  by (simp add: chat_def initial_state_def)

section \<open>The model-client factory\<close>

text \<open>
  C9. \<^verbatim>\<open>init_gemini_client\<close> raises a \<^verbatim>\<open>ValueError\<close> for the empty key. For any other key
  it returns a function and does not raise, whichever SDKs are installed: the one built
  on the newer SDK if that is present, else the one built on the older SDK if that is
  present, else a stub, and a call of the stub returns a fixed explanatory text.
\<close>

theorem init_gemini_client_result:
  "fst (init_gemini_client e provided_key st) =
     (if provided_key = []
      then Inl (ValueError (py ''API key is required to initialise the Gemini client.''))
      else Inr (if genai e then call_with_genai
                else if generativeai e then call_with_generativeai provided_key
                else call_stub))
   \<and> invoke generate st' call_stub messages = Returns (Str stub_message)"
  by (simp add: init_gemini_client_def Let_def)

theorem init_gemini_client_result_witness:
  "fst (init_gemini_client example_env [] initial_state) =
     Inl (ValueError (py ''API key is required to initialise the Gemini client.''))
   \<and> fst (init_gemini_client example_env (py ''key'') initial_state) = Inr call_with_genai
   \<and> fst (init_gemini_client (example_env\<lparr>genai := False, generativeai := True\<rparr>) (py ''key'')
        initial_state) = Inr (call_with_generativeai (py ''key''))
   \<and> fst (init_gemini_client (example_env\<lparr>genai := False\<rparr>) (py ''key'') initial_state) =
       Inr call_stub"
  using init_gemini_client_result[of example_env "[]" initial_state]
    init_gemini_client_result[of example_env "py ''key''" initial_state]
    init_gemini_client_result[of "example_env\<lparr>genai := False, generativeai := True\<rparr>"
      "py ''key''" initial_state]
    init_gemini_client_result[of "example_env\<lparr>genai := False\<rparr>" "py ''key''" initial_state]
  by (simp add: example_env_def)

section \<open>Uploads with missing input\<close>

text \<open>
  C10. When no file is given or the key is empty, \<^verbatim>\<open>upload_and_prepare\<close> returns an
  instruction and the whole session state (document text, key, bound function and the
  three logs) is what it was before the call.
\<close>

theorem upload_missing_input_keeps_state:
  assumes "pdf_file = None \<or> user_api_key = []"
  shows "upload_and_prepare e pdf_file user_api_key st =
    (Inr (if pdf_file = None then py ''Please upload a PDF file.''
          else py ''Please provide your Gemini API key.''), st)"
  using assms by (auto simp: upload_and_prepare_def)

theorem upload_missing_input_keeps_state_witness:
  "upload_and_prepare example_env None (py ''key'') revenue_state =
     (Inr (py ''Please upload a PDF file.''), revenue_state)
   \<and> upload_and_prepare example_env (Some (Pages [Some (py ''Costs were $1M.'')])) [] revenue_state =
     (Inr (py ''Please provide your Gemini API key.''), revenue_state)"
  using upload_missing_input_keeps_state[of None "py ''key''" example_env revenue_state]
    upload_missing_input_keeps_state[of "Some (Pages [Some (py ''Costs were $1M.'')])" "[]"
      example_env revenue_state]
  by simp

end
